theory Spec2Isabelle
  imports Complex_Main "HOL-Library.Log_Nat"
begin

section \<open>Go \<open>float32\<close> arithmetic of the scale flag\<close>

text \<open>
  The flag \<^verbatim>\<open>scale\<close> is a Go \<^verbatim>\<open>float32\<close>, and the destination size is computed as
  \<^verbatim>\<open>int(float32(rect.Dx())*scale)\<close>.  A \<^verbatim>\<open>float32\<close> is an IEEE 754 binary32 value: a
  finite value (a rational here), an infinity or a NaN.  The two zeros are one value
  \<open>Finite 0\<close>: the program compares the scale with \<^verbatim>\<open>1.\<close>, multiplies and converts to
  \<^verbatim>\<open>int\<close>, and none of the three tells \<open>-0\<close> from \<open>+0\<close>.
\<close>

datatype float32 = Finite rat | PosInf | NegInf | NaN

definition pow2 :: "int \<Rightarrow> rat" where
  "pow2 k = (if 0 \<le> k then 2 ^ nat k else 1 / 2 ^ nat (- k))"

text \<open>
  The binary exponent of a positive rational \<open>p / q\<close>: the \<open>e\<close> with
  \<open>2\<^sup>e \<le> p / q < 2\<^sup>e\<^sup>+\<^sup>1\<close>.  The bit lengths of \<open>p\<close> and \<open>q\<close> give it up to one.
\<close>

definition floor_log2 :: "rat \<Rightarrow> int" where
  "floor_log2 x =
     (let (p, q) = quotient_of x;
          d = bitlen p - bitlen q
      in if pow2 d \<le> x then d else d - 1)"

definition round_half_even :: "rat \<Rightarrow> int" where
  "round_half_even q =
     (let f = \<lfloor>q\<rfloor>; d = q - of_int f
      in if d < 1 / 2 then f
         else if 1 / 2 < d then f + 1
         else if even f then f else f + 1)"

text \<open>
  Rounding a real result to binary32, to nearest and ties to even: 24 significant bits,
  exponents from \<open>-126\<close> (below it the spacing stays \<open>2\<^sup>-\<^sup>1\<^sup>4\<^sup>9\<close>, the subnormal numbers), and
  a result of magnitude \<open>2\<^sup>1\<^sup>2\<^sup>8\<close> or more is an infinity.
\<close>

definition round_f32 :: "rat \<Rightarrow> float32" where
  "round_f32 x =
     (if x = 0 then Finite 0
      else let e = max (floor_log2 \<bar>x\<bar>) (- 126);
               ulp = pow2 (e - 23);
               r = of_int (round_half_even (x / ulp)) * ulp
           in if pow2 128 \<le> r then PosInf
              else if r \<le> - pow2 128 then NegInf
              else Finite r)"

text \<open>The conversion \<^verbatim>\<open>float32(n)\<close> of an \<^verbatim>\<open>int\<close>.\<close>

definition float32_of_int :: "int \<Rightarrow> float32" where
  "float32_of_int n = round_f32 (of_int n)"

text \<open>
  The product \<^verbatim>\<open>a * b\<close> of two \<^verbatim>\<open>float32\<close> values: the exact product, rounded to
  \<^verbatim>\<open>float32\<close> (a single multiplication, which nothing can fuse with the conversions
  around it).
\<close>

fun f32_mul :: "float32 \<Rightarrow> float32 \<Rightarrow> float32" where
  "f32_mul (Finite a) (Finite b) = round_f32 (a * b)"
| "f32_mul NaN _ = NaN"
| "f32_mul _ NaN = NaN"
| "f32_mul (Finite a) PosInf = (if a = 0 then NaN else if 0 < a then PosInf else NegInf)"
| "f32_mul (Finite a) NegInf = (if a = 0 then NaN else if 0 < a then NegInf else PosInf)"
| "f32_mul PosInf (Finite b) = (if b = 0 then NaN else if 0 < b then PosInf else NegInf)"
| "f32_mul NegInf (Finite b) = (if b = 0 then NaN else if 0 < b then NegInf else PosInf)"
| "f32_mul PosInf PosInf = PosInf"
| "f32_mul PosInf NegInf = NegInf"
| "f32_mul NegInf PosInf = NegInf"
| "f32_mul NegInf NegInf = PosInf"

text \<open>The comparison \<^verbatim>\<open>a != b\<close>: a NaN differs from everything, itself included.\<close>

definition f32_neq :: "float32 \<Rightarrow> float32 \<Rightarrow> bool" where
  "f32_neq a b = (if a = NaN \<or> b = NaN then True else a \<noteq> b)"

definition trunc :: "rat \<Rightarrow> int" where
  "trunc x = (if 0 \<le> x then \<lfloor>x\<rfloor> else \<lceil>x\<rceil>)"

text \<open>
  The conversion \<^verbatim>\<open>int(f)\<close>: the fraction is discarded (truncation towards zero).  Go
  leaves the result to the implementation when the value does not fit the integer type
  (a NaN, an infinity, a magnitude beyond the 64 bits of \<^verbatim>\<open>int\<close>): that is \<open>None\<close> here,
  and the model follows such a run no further.
\<close>

fun int_of_float32 :: "float32 \<Rightarrow> int option" where
  "int_of_float32 (Finite x) =
     (let t = trunc x
      in if - (2 ^ 63) \<le> t \<and> t < 2 ^ 63 then Some t else None)"
| "int_of_float32 _ = None"

section \<open>Geometry of package \<^verbatim>\<open>image\<close>\<close>

text \<open>
  A Go \<^verbatim>\<open>int\<close> has 64 bits here, and its arithmetic wraps around: \<open>wrap_int\<close> takes the exact
  result of an operation to the \<^verbatim>\<open>int\<close> that Go computes.
\<close>

definition wrap_int :: "int \<Rightarrow> int" where
  "wrap_int n = (n + 2 ^ 63) mod 2 ^ 64 - 2 ^ 63"

record point =
  X :: int
  Y :: int

record rectangle =
  Min_pt :: point
  Max_pt :: point

text \<open>
  \<^verbatim>\<open>image.Rect(x0, y0, x1, y1)\<close>: the rectangle of the two corners, with the minimum and
  maximum coordinates swapped where needed so that it is well formed.
\<close>

definition Rect :: "int \<Rightarrow> int \<Rightarrow> int \<Rightarrow> int \<Rightarrow> rectangle" where
  "Rect x0 y0 x1 y1 =
     (let (x0, x1) = (if x0 > x1 then (x1, x0) else (x0, x1));
          (y0, y1) = (if y0 > y1 then (y1, y0) else (y0, y1))
      in \<lparr>Min_pt = \<lparr>X = x0, Y = y0\<rparr>, Max_pt = \<lparr>X = x1, Y = y1\<rparr>\<rparr>)"

text \<open>\<^verbatim>\<open>r.Dx()\<close> is \<^verbatim>\<open>r.Max.X - r.Min.X\<close> and \<^verbatim>\<open>r.Dy()\<close> is \<^verbatim>\<open>r.Max.Y - r.Min.Y\<close>, in \<^verbatim>\<open>int\<close>.\<close>

definition Dx :: "rectangle \<Rightarrow> int" where
  "Dx r = wrap_int (X (Max_pt r) - X (Min_pt r))"

definition Dy :: "rectangle \<Rightarrow> int" where
  "Dy r = wrap_int (Y (Max_pt r) - Y (Min_pt r))"

text \<open>
  The argument check of \<^verbatim>\<open>image.NewRGBA(r)\<close>: the length of the pixel buffer is
  \<^verbatim>\<open>mul3NonNeg(4, r.Dx(), r.Dy())\<close>, which is \<open>-1\<close> when an argument is negative or the
  computation overflows (two 64-bit multiplications, each with its high word zero, and a
  result that is an \<^verbatim>\<open>int\<close>); on \<open>-1\<close> the constructor panics (\<open>None\<close>) with
  ``Rectangle has huge or negative dimensions''.
\<close>

definition mul3NonNeg :: "int \<Rightarrow> int \<Rightarrow> int \<Rightarrow> int" where
  "mul3NonNeg x y z =
     (if x < 0 \<or> y < 0 \<or> z < 0 then - 1
      else if 2 ^ 64 \<le> x * y then - 1
      else if 2 ^ 64 \<le> x * y * z then - 1
      else if 2 ^ 63 \<le> x * y * z then - 1
      else x * y * z)"

definition pixelBufferLength :: "int \<Rightarrow> rectangle \<Rightarrow> int option" where
  "pixelBufferLength bytesPerPixel r =
     (let totalLength = mul3NonNeg bytesPerPixel (Dx r) (Dy r)
      in if totalLength < 0 then None else Some totalLength)"

text \<open>
  The buffer is then made by \<^verbatim>\<open>make([]uint8, n)\<close>, which panics (``len out of range'')
  on a length beyond what the run-time system can address: \<open>maxAlloc\<close>, \<open>2\<^sup>4\<^sup>8\<close> bytes on
  the 64-bit platforms.  Up to that length the buffer is taken to be allocated: the memory
  of the machine is not bounded.
\<close>

definition maxAlloc :: int where
  "maxAlloc = 2 ^ 48"

definition make_uint8 :: "int \<Rightarrow> int option" where
  "make_uint8 n = (if n < 0 \<or> maxAlloc < n then None else Some n)"

section \<open>The images and the drawing calls of \<^verbatim>\<open>rootCmd.Run\<close>\<close>

text \<open>
  \<^verbatim>\<open>Run\<close> never reads or writes a pixel itself: it allocates images and hands them to
  the two drawers of \<^verbatim>\<open>golang.org/x/image/draw\<close>.  An image is therefore the way it was
  made together with its bounds, and the effect of \<^verbatim>\<open>Run\<close> on the pixels is the list of
  the drawing calls it makes, in order, each with its arguments.

  \<^verbatim>\<open>image.NewRGBA\<close> panics on a rectangle that fails its argument check or whose buffer
  \<^verbatim>\<open>make\<close> refuses, and \<open>resize\<close> has both branches.  \<^verbatim>\<open>image.NewPaletted\<close> makes the
  same checks with one byte a pixel, which cannot fail where \<^verbatim>\<open>Run\<close> calls it: after a
  resize the rectangle has passed them with four bytes a pixel (\<open>NewPaletted_fits\<close> below),
  and otherwise it is the bounds of an image that the decoder has allocated.  Past the
  checks a drawing call is taken to return.
\<close>

datatype color = White | Black

datatype image =
    Decoded rectangle  \<comment> \<open>the result of \<^verbatim>\<open>png.Decode\<close> or \<^verbatim>\<open>jpeg.Decode\<close>, with its bounds\<close>
  | NewRGBA rectangle  \<comment> \<open>\<^verbatim>\<open>image.NewRGBA(r)\<close>\<close>

fun Bounds :: "image \<Rightarrow> rectangle" where
  "Bounds (Decoded r) = r"
| "Bounds (NewRGBA r) = r"

datatype paletted = NewPaletted rectangle "color list"  \<comment> \<open>\<^verbatim>\<open>image.NewPaletted(r, p)\<close>\<close>

fun Rect_of :: "paletted \<Rightarrow> rectangle" where
  "Rect_of (NewPaletted r p) = r"

fun Palette_of :: "paletted \<Rightarrow> color list" where
  "Palette_of (NewPaletted r p) = p"

datatype op = Over | Src

datatype call =
    Scale image rectangle image rectangle op
      \<comment> \<open>\<^verbatim>\<open>draw.NearestNeighbor.Scale(dst, dr, src, sr, op, nil)\<close>\<close>
  | FloydSteinberg_Draw paletted rectangle image point
      \<comment> \<open>\<^verbatim>\<open>draw.FloydSteinberg.Draw(dst, r, src, sp)\<close>\<close>

fun is_Scale :: "call \<Rightarrow> bool" where
  "is_Scale (Scale d dr s sr opr) = True"
| "is_Scale (FloydSteinberg_Draw d r s sp) = False"

record run =
  dst :: paletted
  calls :: "call list"

text \<open>The expression \<^verbatim>\<open>int(float32(d)*scale)\<close> of line 65.\<close>

definition scaled_dim :: "int \<Rightarrow> float32 \<Rightarrow> int option" where
  "scaled_dim d scale = int_of_float32 (f32_mul (float32_of_int d) scale)"

text \<open>
  Lines 63 to 69: the block under \<^verbatim>\<open>if scale != 1.\<close>, from the current \<^verbatim>\<open>rect\<close> and
  \<^verbatim>\<open>img\<close> to the new ones and the drawing calls made.  It is \<open>None\<close> when the block
  returns no image: a conversion of line 65 that Go leaves to the implementation, or a
  panic of \<^verbatim>\<open>image.NewRGBA\<close> on line 66.
\<close>

definition resize :: "rectangle \<Rightarrow> image \<Rightarrow> float32 \<Rightarrow> (rectangle \<times> image \<times> call list) option" where
  "resize rect img scale =
     (if f32_neq scale (Finite 1) then
        (case scaled_dim (Dx rect) scale of
           None \<Rightarrow> None
         | Some w \<Rightarrow>
            (case scaled_dim (Dy rect) scale of
               None \<Rightarrow> None
             | Some h \<Rightarrow>
                (let rect = Rect 0 0 w h
                 in case pixelBufferLength 4 rect of
                      None \<Rightarrow> None
                    | Some n \<Rightarrow>
                       (case make_uint8 n of
                          None \<Rightarrow> None
                        | Some pix \<Rightarrow>
                           (let tmp = NewRGBA rect
                            in Some (rect, tmp, [Scale tmp rect img (Bounds img) Over]))))))
      else Some (rect, img, []))"

text \<open>
  Lines 61 to 73 of \<^verbatim>\<open>rootCmd.Run\<close>, from the decoded image and the scale flag to the
  paletted image handed to the encoder.
\<close>

definition Run :: "image \<Rightarrow> float32 \<Rightarrow> run option" where
  "Run img scale =
     (let palette = [White, Black];
          rect = Bounds img
      in case resize rect img scale of
           None \<Rightarrow> None
         | Some (rect, img, cs) \<Rightarrow>
            (let dst = NewPaletted rect palette
             in Some \<lparr>dst = dst,
                  calls = cs @ [FloydSteinberg_Draw dst (Bounds img) img \<lparr>X = 0, Y = 0\<rparr>]\<rparr>))"

text \<open>The size \<^verbatim>\<open>dst.Bounds().Dx()\<close>, \<^verbatim>\<open>dst.Bounds().Dy()\<close> of the image a run returns.\<close>

definition out_dims :: "run \<Rightarrow> int \<times> int" where
  "out_dims r = (Dx (Rect_of (dst r)), Dy (Rect_of (dst r)))"

section \<open>Facts about the arithmetic\<close>

lemma pow2_pos: "0 < pow2 k"
  by (simp add: pow2_def)

lemma round_half_even_nonneg: "0 \<le> q \<Longrightarrow> 0 \<le> round_half_even q"
  by (auto simp: round_half_even_def Let_def)

lemma round_half_even_nonpos:
  assumes "q \<le> 0"
  shows "round_half_even q \<le> 0"
proof -
  have f: "\<lfloor>q\<rfloor> \<le> 0" using assms by simp
  show ?thesis
  proof (cases "q - of_int \<lfloor>q\<rfloor> < 1 / 2")
    case True
    then show ?thesis using f by (simp add: round_half_even_def Let_def)
  next
    case False
    then have "of_int \<lfloor>q\<rfloor> < (0::rat)" using assms by linarith
    then have "\<lfloor>q\<rfloor> < 0" by simp
    then show ?thesis by (auto simp: round_half_even_def Let_def)
  qed
qed

lemma round_f32_Finite_nonneg:
  assumes "round_f32 x = Finite r" "0 \<le> x"
  shows "0 \<le> r"
proof (cases "x = 0")
  case True
  with assms show ?thesis by (simp add: round_f32_def)
next
  case False
  define u where "u = pow2 (max (floor_log2 \<bar>x\<bar>) (- 126) - 23)"
  have u: "0 < u" by (simp add: u_def pow2_pos)
  have r: "r = of_int (round_half_even (x / u)) * u"
    using assms(1) False by (simp add: round_f32_def Let_def u_def split: if_splits)
  have "0 \<le> round_half_even (x / u)"
    using assms(2) u by (intro round_half_even_nonneg) simp
  then show ?thesis using u by (simp add: r)
qed

lemma round_f32_Finite_nonpos:
  assumes "round_f32 x = Finite r" "x \<le> 0"
  shows "r \<le> 0"
proof (cases "x = 0")
  case True
  with assms show ?thesis by (simp add: round_f32_def)
next
  case False
  define u where "u = pow2 (max (floor_log2 \<bar>x\<bar>) (- 126) - 23)"
  have u: "0 < u" by (simp add: u_def pow2_pos)
  have r: "r = of_int (round_half_even (x / u)) * u"
    using assms(1) False by (simp add: round_f32_def Let_def u_def split: if_splits)
  have "round_half_even (x / u) \<le> 0"
    using assms(2) u by (intro round_half_even_nonpos) (simp add: divide_nonpos_pos)
  then show ?thesis using u by (simp add: r mult_le_0_iff)
qed

lemma round_f32_not_NaN: "round_f32 x \<noteq> NaN"
  by (simp add: round_f32_def Let_def)

lemma round_f32_nonneg_not_NegInf:
  assumes "0 \<le> x"
  shows "round_f32 x \<noteq> NegInf"
proof (cases "x = 0")
  case True
  then show ?thesis by (simp add: round_f32_def)
next
  case False
  define u where "u = pow2 (max (floor_log2 \<bar>x\<bar>) (- 126) - 23)"
  have u: "0 < u" by (simp add: u_def pow2_pos)
  have "0 \<le> round_half_even (x / u)"
    using assms u by (intro round_half_even_nonneg) simp
  then have "0 \<le> of_int (round_half_even (x / u)) * u" using u by simp
  moreover have "- pow2 128 < 0" using pow2_pos [of 128] by simp
  ultimately have "\<not> of_int (round_half_even (x / u)) * u \<le> - pow2 128" by linarith
  then show ?thesis using False by (simp add: round_f32_def Let_def u_def)
qed

lemma float32_of_int_nonneg_cases:
  assumes "0 \<le> n"
  obtains a where "float32_of_int n = Finite a" "0 \<le> a" | "float32_of_int n = PosInf"
proof (cases "float32_of_int n")
  case (Finite a)
  then have "0 \<le> a"
    using round_f32_Finite_nonneg [of "of_int n" a] assms by (simp add: float32_of_int_def)
  with Finite that show ?thesis by blast
next
  case PosInf
  with that show ?thesis by blast
next
  case NegInf
  then show ?thesis
    using round_f32_nonneg_not_NegInf [of "of_int n"] assms by (simp add: float32_of_int_def)
next
  case NaN
  then show ?thesis using round_f32_not_NaN [of "of_int n"] by (simp add: float32_of_int_def)
qed

text \<open>The sign of the product \<^verbatim>\<open>float32(d)*scale\<close> for a dimension \<open>d \<ge> 0\<close>.\<close>

lemma product_nonneg:
  assumes "0 \<le> d" "0 \<le> s" "f32_mul (float32_of_int d) (Finite s) = Finite p"
  shows "0 \<le> p"
  using assms(1)
proof (cases rule: float32_of_int_nonneg_cases)
  case (1 a)
  then have "round_f32 (a * s) = Finite p" using assms(3) by simp
  moreover have "0 \<le> a * s" using 1 assms(2) by simp
  ultimately show ?thesis by (rule round_f32_Finite_nonneg)
next
  case 2
  then show ?thesis using assms(3) by (simp split: if_splits)
qed

lemma product_nonpos:
  assumes "0 \<le> d" "s \<le> 0" "f32_mul (float32_of_int d) (Finite s) = Finite p"
  shows "p \<le> 0"
  using assms(1)
proof (cases rule: float32_of_int_nonneg_cases)
  case (1 a)
  then have "round_f32 (a * s) = Finite p" using assms(3) by simp
  moreover have "a * s \<le> 0" using 1 assms(2) by (simp add: mult_nonneg_nonpos)
  ultimately show ?thesis by (rule round_f32_Finite_nonpos)
next
  case 2
  then show ?thesis using assms(3) by (simp split: if_splits)
qed

lemma pow2_powi: "pow2 k = 2 powi k"
  by (simp add: pow2_def power_int_def power_one_over inverse_eq_divide)

lemma pow2_add: "pow2 (a + b) = pow2 a * pow2 b"
  by (simp add: pow2_powi power_int_add)

lemma pow2_mono: "a \<le> b \<Longrightarrow> pow2 a \<le> pow2 b"
  by (simp add: pow2_powi power_int_increasing)

lemma pow2_of_int: "0 \<le> k \<Longrightarrow> pow2 k = of_int (2 ^ nat k)"
  by (simp add: pow2_def)

lemma floor_log2_bounds:
  assumes "0 < x"
  shows "pow2 (floor_log2 x) \<le> x" and "x < pow2 (floor_log2 x + 1)"
proof -
  obtain p q where pq: "quotient_of x = (p, q)" by (cases "quotient_of x")
  have q: "0 < q" using pq by (rule quotient_of_denom_pos)
  have x: "x = of_int p / of_int q" using pq by (rule quotient_of_div)
  have p: "0 < p" using assms q by (simp add: x zero_less_divide_iff)
  define d where "d = bitlen p - bitlen q"
  have bp: "2 ^ nat (bitlen p - 1) \<le> p" "p < 2 ^ nat (bitlen p)"
    using bitlen_bounds [OF p] by simp_all
  have bq: "2 ^ nat (bitlen q - 1) \<le> q" "q < 2 ^ nat (bitlen q)"
    using bitlen_bounds [OF q] by simp_all
  have lp: "1 \<le> bitlen p" using p by (simp add: bitlen_alt_def)
  have lq: "1 \<le> bitlen q" using q by (simp add: bitlen_alt_def)
  have P1: "pow2 (bitlen p - 1) \<le> of_int p"
    using bp(1) lp by (simp add: pow2_of_int del: of_int_power) 
  have P2: "of_int p < pow2 (bitlen p)"
    using bp(2) lp by (simp add: pow2_of_int del: of_int_power)
  have Q1: "pow2 (bitlen q - 1) \<le> of_int q"
    using bq(1) lq by (simp add: pow2_of_int del: of_int_power)
  have Q2: "of_int q < pow2 (bitlen q)"
    using bq(2) lq by (simp add: pow2_of_int del: of_int_power)
  have qpos: "(0::rat) < of_int q" using q by simp
  have up: "x < pow2 (d + 1)"
  proof -
    have "pow2 (d + 1) * of_int q \<ge> pow2 (d + 1) * pow2 (bitlen q - 1)"
      using Q1 pow2_pos [of "d + 1"] by (simp add: mult_left_mono)
    also have "pow2 (d + 1) * pow2 (bitlen q - 1) = pow2 (bitlen p)"
      by (simp add: pow2_add [symmetric] d_def)
    finally have "of_int p < pow2 (d + 1) * of_int q" using P2 by linarith
    then show ?thesis using qpos by (simp add: x pos_divide_less_eq)
  qed
  have low: "pow2 (d - 1) \<le> x"
  proof -
    have "pow2 (d - 1) * of_int q \<le> pow2 (d - 1) * pow2 (bitlen q)"
      using Q2 pow2_pos [of "d - 1"] by (simp add: mult_left_mono)
    also have "pow2 (d - 1) * pow2 (bitlen q) = pow2 (bitlen p - 1)"
      by (simp add: pow2_add [symmetric] d_def)
    finally have "pow2 (d - 1) * of_int q \<le> of_int p" using P1 by linarith
    then show ?thesis using qpos by (simp add: x pos_le_divide_eq)
  qed
  have fl: "floor_log2 x = (if pow2 d \<le> x then d else d - 1)"
    by (simp add: floor_log2_def pq d_def Let_def)
  show "pow2 (floor_log2 x) \<le> x" using low by (simp add: fl)
  show "x < pow2 (floor_log2 x + 1)" using up by (auto simp: fl)
qed

lemma floor_log2_less:
  assumes "0 < x" "x < pow2 k"
  shows "floor_log2 x < k"
proof (rule ccontr)
  assume "\<not> floor_log2 x < k"
  then have "pow2 k \<le> pow2 (floor_log2 x)" by (simp add: pow2_mono)
  with floor_log2_bounds(1) [OF assms(1)] assms(2) show False by linarith
qed

lemma round_half_even_of_int: "round_half_even (of_int m) = m"
  by (simp add: round_half_even_def)

lemma round_half_even_ge:
  assumes "of_int m \<le> q"
  shows "m \<le> round_half_even q"
proof -
  have "m \<le> \<lfloor>q\<rfloor>" using assms by (simp add: le_floor_iff)
  then show ?thesis by (auto simp: round_half_even_def Let_def)
qed

lemma round_half_even_le:
  assumes "q \<le> of_int m"
  shows "round_half_even q \<le> m"
proof (cases "q = of_int m")
  case True
  then show ?thesis by (simp add: round_half_even_of_int)
next
  case False
  then have "q < of_int m" using assms by simp
  then have "\<lfloor>q\<rfloor> < m" by (simp add: floor_less_iff)
  then show ?thesis by (auto simp: round_half_even_def Let_def)
qed


text \<open>
  Below \<open>2\<^sup>2\<^sup>4\<close> in magnitude every integer is a \<^verbatim>\<open>float32\<close>, so rounding never crosses
  one: the rounded value lies between the two integers around the exact one.
\<close>

lemma round_f32_between_ints:
  assumes "\<bar>x\<bar> < pow2 24"
  shows "\<exists>r. round_f32 x = Finite r \<and> of_int \<lfloor>x\<rfloor> \<le> r \<and> r \<le> of_int \<lceil>x\<rceil>"
proof (cases "x = 0")
  case True
  then show ?thesis by (simp add: round_f32_def)
next
  case False
  define e where "e = max (floor_log2 \<bar>x\<bar>) (- 126)"
  define u where "u = pow2 (e - 23)"
  define K :: int where "K = 2 ^ nat (23 - e)"
  define r where "r = of_int (round_half_even (x / u)) * u"
  have "floor_log2 \<bar>x\<bar> < 24" using False assms by (intro floor_log2_less) simp_all
  then have e: "e \<le> 23" by (simp add: e_def)
  have u: "0 < u" by (simp add: u_def pow2_pos)
  have "pow2 (23 - e) * u = pow2 0" unfolding u_def pow2_add [symmetric] by simp
  moreover have "pow2 (23 - e) = of_int K" using e by (simp add: K_def pow2_of_int)
  ultimately have Ku: "of_int K * u = 1" by (simp add: pow2_def)
  have scale: "of_int m / u = of_int (m * K)" for m
  proof -
    have "of_int (m * K) * u = of_int m * (of_int K * u)" by simp
    also have "\<dots> = of_int m" by (simp add: Ku)
    finally show ?thesis using u by (simp add: divide_eq_eq)
  qed
  have unscale: "of_int (m * K) * u = of_int m" for m
    using scale [of m] u by (simp add: divide_eq_eq)
  have low: "of_int \<lfloor>x\<rfloor> \<le> r"
  proof -
    have "of_int (\<lfloor>x\<rfloor> * K) \<le> x / u"
      unfolding scale [symmetric] using u by (simp add: divide_right_mono)
    then have "\<lfloor>x\<rfloor> * K \<le> round_half_even (x / u)" by (rule round_half_even_ge)
    then have "(of_int (\<lfloor>x\<rfloor> * K) :: rat) \<le> of_int (round_half_even (x / u))"
      by (simp only: of_int_le_iff)
    then have "of_int (\<lfloor>x\<rfloor> * K) * u \<le> r"
      unfolding r_def using u by (simp only: mult_le_cancel_right_pos)
    then show ?thesis by (simp only: unscale)
  qed
  have up: "r \<le> of_int \<lceil>x\<rceil>"
  proof -
    have "x / u \<le> of_int (\<lceil>x\<rceil> * K)"
      unfolding scale [symmetric] using u by (simp add: divide_right_mono)
    then have "round_half_even (x / u) \<le> \<lceil>x\<rceil> * K" by (rule round_half_even_le)
    then have "(of_int (round_half_even (x / u)) :: rat) \<le> of_int (\<lceil>x\<rceil> * K)"
      by (simp only: of_int_le_iff)
    then have "r \<le> of_int (\<lceil>x\<rceil> * K) * u"
      unfolding r_def using u by (simp only: mult_le_cancel_right_pos)
    then show ?thesis by (simp only: unscale)
  qed
  have p24: "pow2 24 = 16777216" by (simp add: pow2_def)
  have "x < 16777216" "- 16777216 < x" using assms by (simp_all add: p24 abs_less_iff)
  then have "\<lceil>x\<rceil> \<le> 16777216" "- 16777216 \<le> \<lfloor>x\<rfloor>"
    by (simp_all add: ceiling_le_iff le_floor_iff)
  then have "(of_int \<lceil>x\<rceil> :: rat) \<le> 16777216" "(- 16777216 :: rat) \<le> of_int \<lfloor>x\<rfloor>"
    by (simp_all only: of_int_le_iff [symmetric, where 'a = rat] of_int_numeral of_int_minus)
  then have bnd: "r \<le> 16777216" "- 16777216 \<le> r" using low up by linarith+
  have "(16777216 :: rat) < pow2 128" by (simp add: pow2_def)
  then have "\<not> pow2 128 \<le> r" "\<not> r \<le> - pow2 128" using bnd by linarith+
  then have "round_f32 x = Finite r"
    using False by (simp add: round_f32_def Let_def e_def [symmetric] u_def [symmetric] r_def)
  then show ?thesis using low up by blast
qed

lemma float32_of_int_exact:
  assumes "\<bar>n\<bar> \<le> 2 ^ 24"
  shows "float32_of_int n = Finite (of_int n)"
proof (cases "\<bar>n\<bar> = 2 ^ 24")
  case True
  then have "n = 16777216 \<or> n = - 16777216" by auto
  moreover have "float32_of_int 16777216 = Finite (of_int 16777216)"
    and "float32_of_int (- 16777216) = Finite (of_int (- 16777216))"
    by code_simp+
  ultimately show ?thesis by auto
next
  case False
  then have "\<bar>n\<bar> < 2 ^ 24" using assms by simp
  then have "(of_int \<bar>n\<bar> :: rat) < of_int (2 ^ 24)" by (simp only: of_int_less_iff)
  then have "\<bar>of_int n :: rat\<bar> < pow2 24" by (simp add: pow2_def)
  from round_f32_between_ints [OF this]
  show ?thesis by (auto simp: float32_of_int_def)
qed


section \<open>Facts about the run\<close>

lemma wrap_int_id: "- (2 ^ 63) \<le> n \<Longrightarrow> n < 2 ^ 63 \<Longrightarrow> wrap_int n = n"
  by (simp add: wrap_int_def)

lemma Dx_Rect: "- (2 ^ 63) < w \<Longrightarrow> w < 2 ^ 63 \<Longrightarrow> Dx (Rect 0 0 w h) = \<bar>w\<bar>"
  by (auto simp: Dx_def Rect_def wrap_int_id)

lemma Dy_Rect: "- (2 ^ 63) < h \<Longrightarrow> h < 2 ^ 63 \<Longrightarrow> Dy (Rect 0 0 w h) = \<bar>h\<bar>"
  by (auto simp: Dy_def Rect_def wrap_int_id)

lemma Rect_nonpos:
  "w \<le> 0 \<Longrightarrow> h \<le> 0 \<Longrightarrow>
     Rect 0 0 w h = \<lparr>Min_pt = \<lparr>X = w, Y = h\<rparr>, Max_pt = \<lparr>X = 0, Y = 0\<rparr>\<rparr>"
  by (auto simp: Rect_def)

text \<open>When the check of \<^verbatim>\<open>image.NewRGBA\<close> passes, in plain arithmetic.\<close>

lemma mul3NonNeg_fits:
  assumes "0 \<le> a" "0 \<le> b" "a < 2 ^ 62" "4 * a * b < 2 ^ 63"
  shows "mul3NonNeg 4 a b = 4 * a * b"
  using assms by (simp add: mul3NonNeg_def)

lemma pixelBufferLength_Rect:
  assumes "\<bar>w\<bar> < 2 ^ 62" "\<bar>h\<bar> < 2 ^ 63" "4 * \<bar>w\<bar> * \<bar>h\<bar> < 2 ^ 63"
  shows "pixelBufferLength 4 (Rect 0 0 w h) = Some (4 * \<bar>w\<bar> * \<bar>h\<bar>)"
proof -
  have w: "Dx (Rect 0 0 w h) = \<bar>w\<bar>" using assms(1) by (intro Dx_Rect) simp_all
  have h: "Dy (Rect 0 0 w h) = \<bar>h\<bar>" using assms(2) by (intro Dy_Rect) simp_all
  define P where "P = 4 * \<bar>w\<bar> * \<bar>h\<bar>"
  have m: "mul3NonNeg 4 \<bar>w\<bar> \<bar>h\<bar> = P"
    unfolding P_def using assms(1,3) by (intro mul3NonNeg_fits) simp_all
  have "0 \<le> P" by (simp add: P_def)
  then have "pixelBufferLength 4 (Rect 0 0 w h) = Some P"
    by (simp add: pixelBufferLength_def w h Let_def m)
  then show ?thesis by (simp only: P_def)
qed

lemma accepted_size:
  assumes "\<bar>w\<bar> < 2 ^ 62" "\<bar>h\<bar> < 2 ^ 63" "4 * \<bar>w\<bar> * \<bar>h\<bar> \<le> 2 ^ 48"
  shows "pixelBufferLength 4 (Rect 0 0 w h) = Some (4 * \<bar>w\<bar> * \<bar>h\<bar>)"
    and "4 * \<bar>w\<bar> * \<bar>h\<bar> \<le> maxAlloc"
proof -
  have "(2 :: int) ^ 48 < 2 ^ 63" by simp
  then have "4 * \<bar>w\<bar> * \<bar>h\<bar> < 2 ^ 63" using assms(3) by (rule le_less_trans [rotated])
  then show "pixelBufferLength 4 (Rect 0 0 w h) = Some (4 * \<bar>w\<bar> * \<bar>h\<bar>)"
    by (rule pixelBufferLength_Rect [OF assms(1,2)])
  show "4 * \<bar>w\<bar> * \<bar>h\<bar> \<le> maxAlloc" using assms(3) by (simp only: maxAlloc_def)
qed

text \<open>
  A rectangle that \<^verbatim>\<open>image.NewRGBA\<close> accepts passes the checks of \<^verbatim>\<open>image.NewPaletted\<close>,
  of one byte a pixel.
\<close>

lemma NewPaletted_fits:
  assumes "pixelBufferLength 4 r = Some n" "make_uint8 n = Some n"
  shows "pixelBufferLength 1 r = Some (Dx r * Dy r)"
    and "make_uint8 (Dx r * Dy r) = Some (Dx r * Dy r)"
proof -
  have m: "\<not> mul3NonNeg 4 (Dx r) (Dy r) < 0"
    using assms by (simp add: pixelBufferLength_def Let_def split: if_splits)
  then have nn: "0 \<le> Dx r" "0 \<le> Dy r"
    by (auto simp: mul3NonNeg_def split: if_splits)
  have b: "4 * Dx r < 2 ^ 64" "4 * Dx r * Dy r < 2 ^ 63"
    using m by (auto simp: mul3NonNeg_def split: if_splits)
  have p: "0 \<le> Dx r * Dy r" using nn by simp
  have "Dx r * Dy r \<le> 4 * (Dx r * Dy r)" using p by linarith
  then have "Dx r * Dy r < 2 ^ 63" using b(2) by (simp add: mult.assoc)
  moreover have "Dx r < 2 ^ 64" using b(1) nn(1) by linarith
  ultimately have "mul3NonNeg 1 (Dx r) (Dy r) = Dx r * Dy r"
    using nn by (simp add: mul3NonNeg_def)
  then show "pixelBufferLength 1 r = Some (Dx r * Dy r)"
    using p by (simp add: pixelBufferLength_def Let_def)
  have "mul3NonNeg 4 (Dx r) (Dy r) = 4 * Dx r * Dy r"
    using m by (auto simp: mul3NonNeg_def split: if_splits)
  then have "n = 4 * (Dx r * Dy r)"
    using assms(1) m by (simp add: pixelBufferLength_def Let_def mult.assoc)
  moreover have "n \<le> maxAlloc"
    using assms(2) by (simp add: make_uint8_def split: if_splits)
  ultimately have "Dx r * Dy r \<le> maxAlloc" using p by linarith
  then show "make_uint8 (Dx r * Dy r) = Some (Dx r * Dy r)"
    using p by (simp add: make_uint8_def)
qed

lemma Run_identity:
  "Run img (Finite 1) =
     Some \<lparr>dst = NewPaletted (Bounds img) [White, Black],
       calls = [FloydSteinberg_Draw (NewPaletted (Bounds img) [White, Black]) (Bounds img) img
                  \<lparr>X = 0, Y = 0\<rparr>]\<rparr>"
  by (simp add: Run_def resize_def f32_neq_def Let_def)

lemma Run_resize:
  assumes "f32_neq scale (Finite 1)"
    and "scaled_dim (Dx (Bounds img)) scale = Some w"
    and "scaled_dim (Dy (Bounds img)) scale = Some h"
    and "pixelBufferLength 4 (Rect 0 0 w h) = Some n" "n \<le> maxAlloc"
  shows "Run img scale =
     Some \<lparr>dst = NewPaletted (Rect 0 0 w h) [White, Black],
       calls = [Scale (NewRGBA (Rect 0 0 w h)) (Rect 0 0 w h) img (Bounds img) Over,
                FloydSteinberg_Draw (NewPaletted (Rect 0 0 w h) [White, Black]) (Rect 0 0 w h)
                  (NewRGBA (Rect 0 0 w h)) \<lparr>X = 0, Y = 0\<rparr>]\<rparr>"
proof -
  have "0 \<le> n"
    using assms(4) by (simp add: pixelBufferLength_def Let_def split: if_splits)
  then have "make_uint8 n = Some n" using assms(5) by (simp add: make_uint8_def)
  then show ?thesis using assms(1-4) by (simp add: Run_def resize_def Let_def)
qed

text \<open>Where \<^verbatim>\<open>image.NewRGBA\<close> panics, the run returns no image.\<close>

lemma Run_NewRGBA_panics:
  assumes "f32_neq scale (Finite 1)"
    and "scaled_dim (Dx (Bounds img)) scale = Some w"
    and "scaled_dim (Dy (Bounds img)) scale = Some h"
    and "pixelBufferLength 4 (Rect 0 0 w h) = None
         \<or> (\<exists>n. pixelBufferLength 4 (Rect 0 0 w h) = Some n \<and> maxAlloc < n)"
  shows "Run img scale = None"
  using assms by (auto simp: Run_def resize_def Let_def make_uint8_def)

text \<open>
  A 4 by 2 raster at the scale \<open>2\<^sup>3\<^sup>0\<close>, or \<open>-2\<^sup>3\<^sup>0\<close>: the sides convert to \<open>2\<^sup>3\<^sup>2\<close> and \<open>2\<^sup>3\<^sup>1\<close>
  in magnitude, the buffer of \<open>2\<^sup>6\<^sup>5\<close> bytes does not fit an \<^verbatim>\<open>int\<close>, and \<^verbatim>\<open>image.NewRGBA\<close>
  panics.  At the scale \<open>-2\<^sup>6\<^sup>1\<close> the corner \<open>-2\<^sup>6\<^sup>3\<close> makes \<^verbatim>\<open>Dx\<close> wrap to a negative
  width.  At the scale \<open>2\<^sup>2\<^sup>5\<close> the buffer of \<open>2\<^sup>5\<^sup>5\<close> bytes fits an \<^verbatim>\<open>int\<close> and \<^verbatim>\<open>make\<close>
  refuses it.
\<close>

lemma huge_scale_panics:
  "scaled_dim 4 (Finite (2 ^ 30)) = Some (2 ^ 32)
   \<and> scaled_dim 2 (Finite (2 ^ 30)) = Some (2 ^ 31)
   \<and> Run (Decoded (Rect 0 0 4 2)) (Finite (2 ^ 30)) = None
   \<and> Run (Decoded (Rect 0 0 4 2)) (Finite (- (2 ^ 30))) = None
   \<and> scaled_dim 4 (Finite (- (2 ^ 61))) = Some (- (2 ^ 63))
   \<and> Dx (Rect 0 0 (- (2 ^ 63)) (- (2 ^ 62))) = - (2 ^ 63)
   \<and> Run (Decoded (Rect 0 0 4 2)) (Finite (- (2 ^ 61))) = None
   \<and> pixelBufferLength 4 (Rect 0 0 (2 ^ 27) (2 ^ 26)) = Some (2 ^ 55)
   \<and> Run (Decoded (Rect 0 0 4 2)) (Finite (2 ^ 25)) = None"
  by code_simp

lemma scaled_dim_Finite:
  assumes "f32_mul (float32_of_int d) scale = Finite p"
    and "- (2 ^ 63) \<le> trunc p" "trunc p < 2 ^ 63"
  shows "scaled_dim d scale = Some (trunc p)"
  using assms by (simp add: scaled_dim_def Let_def)

lemma out_dims_resize:
  assumes "f32_neq scale (Finite 1)"
    and "scaled_dim (Dx (Bounds img)) scale = Some w"
    and "scaled_dim (Dy (Bounds img)) scale = Some h"
    and "\<bar>w\<bar> < 2 ^ 62" "\<bar>h\<bar> < 2 ^ 63" "4 * \<bar>w\<bar> * \<bar>h\<bar> \<le> 2 ^ 48"
  shows "map_option out_dims (Run img scale) = Some (\<bar>w\<bar>, \<bar>h\<bar>)"
proof -
  note n = accepted_size [OF assms(4,5,6)]
  have w: "Dx (Rect 0 0 w h) = \<bar>w\<bar>" using assms(4) by (intro Dx_Rect) simp_all
  have h: "Dy (Rect 0 0 w h) = \<bar>h\<bar>" using assms(5) by (intro Dy_Rect) simp_all
  show ?thesis
    by (simp add: Run_resize [OF assms(1,2,3) n] out_dims_def w h)
qed

text \<open>
  The product is rounded to \<^verbatim>\<open>float32\<close> before it is truncated: ten times the
  \<^verbatim>\<open>float32\<close> nearest to 0.7 is a little less than 7 and rounds to 7.
\<close>

lemma scaled_dim_rounds_before_truncating:
  "round_f32 (7 / 10) = Finite (11744051 / 16777216)
   \<and> scaled_dim 10 (Finite (11744051 / 16777216)) = Some 7
   \<and> \<lfloor>10 * (11744051 / 16777216 :: rat)\<rfloor> = 6"
  by code_simp

text \<open>
  For a dimension and a product below \<open>2\<^sup>2\<^sup>4\<close> in magnitude the conversion is defined, and
  \<^verbatim>\<open>int(float32(d)*scale)\<close> is one of the two integers around the exact product \<open>d \<times> s\<close>.
\<close>

lemma scaled_dim_near_exact:
  assumes "\<bar>d\<bar> \<le> 2 ^ 24" and "\<bar>of_int d * s\<bar> < pow2 24"
  shows "\<exists>w. scaled_dim d (Finite s) = Some w
     \<and> \<lfloor>of_int d * s\<rfloor> \<le> w \<and> w \<le> \<lceil>of_int d * s\<rceil>"
proof -
  define x where "x = of_int d * s"
  obtain r where r: "round_f32 x = Finite r" "of_int \<lfloor>x\<rfloor> \<le> r" "r \<le> of_int \<lceil>x\<rceil>"
    using round_f32_between_ints [of x] assms(2) by (auto simp: x_def)
  have prod: "f32_mul (float32_of_int d) (Finite s) = Finite r"
    using r(1) by (simp add: float32_of_int_exact [OF assms(1)] x_def)
  have fl: "\<lfloor>x\<rfloor> \<le> \<lfloor>r\<rfloor>" using r(2) by (simp add: le_floor_iff)
  have ce: "\<lceil>r\<rceil> \<le> \<lceil>x\<rceil>" using r(3) by (simp add: ceiling_le_iff)
  have fc: "\<lfloor>r\<rfloor> \<le> \<lceil>r\<rceil>" by (rule floor_le_ceiling)
  have fxc: "\<lfloor>x\<rfloor> \<le> \<lceil>r\<rceil>" using fl fc by (rule order_trans)
  have frc: "\<lfloor>r\<rfloor> \<le> \<lceil>x\<rceil>" using fc ce by (rule order_trans)
  have t: "\<lfloor>x\<rfloor> \<le> trunc r" "trunc r \<le> \<lceil>x\<rceil>"
    using fl ce fxc frc by (simp_all add: trunc_def)
  have p24: "pow2 24 = 16777216" by (simp add: pow2_def)
  have "x < 16777216" "- 16777216 < x" using assms(2) by (simp_all add: p24 abs_less_iff x_def)
  then have "\<lceil>x\<rceil> \<le> 16777216" "- 16777216 \<le> \<lfloor>x\<rfloor>"
    by (simp_all add: ceiling_le_iff le_floor_iff)
  then have "- 9223372036854775808 \<le> trunc r" "trunc r < 9223372036854775808"
    using t by linarith+
  then have "- (2 ^ 63) \<le> trunc r" "trunc r < 2 ^ 63" by simp_all
  then have "scaled_dim d (Finite s) = Some (trunc r)"
    by (rule scaled_dim_Finite [OF prod])
  then show ?thesis using t by (simp add: x_def)
qed

text \<open>
  So on rasters of up to \<open>2\<^sup>2\<^sup>4\<close> pixels a side, with the scaled sides below \<open>2\<^sup>2\<^sup>3\<close>, every
  run returns an image, whatever the sign of the scale.
\<close>

lemma Run_defined:
  assumes "\<bar>Dx (Bounds img)\<bar> \<le> 2 ^ 24" "\<bar>Dy (Bounds img)\<bar> \<le> 2 ^ 24"
    and "\<bar>of_int (Dx (Bounds img)) * s\<bar> < pow2 23"
    and "\<bar>of_int (Dy (Bounds img)) * s\<bar> < pow2 23"
  shows "\<exists>r. Run img (Finite s) = Some r"
proof (cases "s = 1")
  case True
  then show ?thesis by (simp add: Run_identity)
next
  case False
  then have ne: "f32_neq (Finite s) (Finite 1)" by (simp add: f32_neq_def)
  have p23: "pow2 23 = 8388608" by (simp add: pow2_def)
  have p24: "pow2 23 < pow2 24" by (simp add: pow2_def)
  have small: "\<bar>v\<bar> \<le> 8388608" if "\<bar>x\<bar> < pow2 23" "\<lfloor>x\<rfloor> \<le> v" "v \<le> \<lceil>x\<rceil>" for v :: int and x :: rat
  proof -
    have "x < 8388608" "- 8388608 < x" using that(1) by (simp_all add: p23 abs_less_iff)
    then have "\<lceil>x\<rceil> \<le> 8388608" "- 8388608 \<le> \<lfloor>x\<rfloor>"
      by (simp_all add: ceiling_le_iff le_floor_iff)
    then show ?thesis using that(2,3) by linarith
  qed
  have xw: "\<bar>of_int (Dx (Bounds img)) * s\<bar> < pow2 24" using assms(3) p24 by (rule less_trans)
  have xh: "\<bar>of_int (Dy (Bounds img)) * s\<bar> < pow2 24" using assms(4) p24 by (rule less_trans)
  obtain w where w: "scaled_dim (Dx (Bounds img)) (Finite s) = Some w" "\<bar>w\<bar> \<le> 8388608"
    using scaled_dim_near_exact [OF assms(1) xw] small [OF assms(3)] by blast
  obtain h where h: "scaled_dim (Dy (Bounds img)) (Finite s) = Some h" "\<bar>h\<bar> \<le> 8388608"
    using scaled_dim_near_exact [OF assms(2) xh] small [OF assms(4)] by blast
  define q where "q = \<bar>w\<bar> * \<bar>h\<bar>"
  have "q \<le> 8388608 * 8388608"
    unfolding q_def using w(2) h(2) by (intro mult_mono) simp_all
  then have "4 * q \<le> 2 ^ 48" by simp
  then have b: "4 * \<bar>w\<bar> * \<bar>h\<bar> \<le> 2 ^ 48" by (simp only: q_def mult.assoc)
  have "\<bar>w\<bar> < 2 ^ 62" "\<bar>h\<bar> < 2 ^ 63" using w(2) h(2) by simp_all
  note n = accepted_size [OF this b]
  show ?thesis by (simp add: Run_resize [OF ne w(1) h(1) n])
qed

text \<open>The palette of every image returned: white at index 0, black at index 1 (line 61).\<close>

lemma Run_palette: "Run img scale = Some r \<Longrightarrow> Palette_of (dst r) = [White, Black]"
  by (auto simp: Run_def Let_def split: option.splits prod.splits)

section \<open>The claims\<close>

text \<open>
  C5.  When the scale is exactly 1.0 the rescale step is skipped: no call of
  \<^verbatim>\<open>NearestNeighbor.Scale\<close> is made, the only drawing call is the dithering of the
  decoded image, and the output image has the bounds, hence the width and the height, of the
  input.
\<close>

theorem identity_scale_skips_rescale:
  "map_option (filter is_Scale \<circ> calls) (Run img (Finite 1)) = Some []
   \<and> map_option calls (Run img (Finite 1)) =
       Some [FloydSteinberg_Draw (NewPaletted (Bounds img) [White, Black]) (Bounds img) img
               \<lparr>X = 0, Y = 0\<rparr>]
   \<and> map_option (Rect_of \<circ> dst) (Run img (Finite 1)) = Some (Bounds img)
   \<and> map_option out_dims (Run img (Finite 1)) = Some (Dx (Bounds img), Dy (Bounds img))"
  by (simp add: Run_identity out_dims_def)

theorem identity_scale_witness:
  "map_option (filter is_Scale \<circ> calls) (Run (Decoded (Rect 0 0 640 480)) (Finite 1)) = Some []
   \<and> map_option out_dims (Run (Decoded (Rect 0 0 640 480)) (Finite 1)) = Some (640, 480)"
  using identity_scale_skips_rescale [of "Decoded (Rect 0 0 640 480)"]
  by (simp add: Dx_def Dy_def Rect_def wrap_int_def)

text \<open>
  C3, as the code has it.  For a raster of width \<open>W \<ge> 0\<close> and height \<open>H \<ge> 0\<close> and a finite
  scale \<open>s > 0\<close> other than 1, let \<open>pw\<close> and \<open>ph\<close> be the \<^verbatim>\<open>float32\<close> products
  \<^verbatim>\<open>float32(W)*s\<close> and \<^verbatim>\<open>float32(H)*s\<close>.  When \<^verbatim>\<open>image.NewRGBA\<close> accepts the size
  (\<open>\<lfloor>pw\<rfloor> < 2\<^sup>6\<^sup>2\<close>, \<open>\<lfloor>ph\<rfloor> < 2\<^sup>6\<^sup>3\<close> and the \<open>4 \<times> \<lfloor>pw\<rfloor> \<times> \<lfloor>ph\<rfloor>\<close> bytes of the buffer at most
  \<open>2\<^sup>4\<^sup>8\<close>), the output has width \<open>\<lfloor>pw\<rfloor>\<close> and height \<open>\<lfloor>ph\<rfloor>\<close>.  Nothing is clamped: a
  product below 1 gives the dimension 0.
\<close>

theorem positive_scale_dimensions:
  assumes "0 < s" "s \<noteq> 1"
    and "0 \<le> Dx (Bounds img)" "0 \<le> Dy (Bounds img)"
    and "f32_mul (float32_of_int (Dx (Bounds img))) (Finite s) = Finite pw"
    and "f32_mul (float32_of_int (Dy (Bounds img))) (Finite s) = Finite ph"
    and "\<lfloor>pw\<rfloor> < 2 ^ 62" "\<lfloor>ph\<rfloor> < 2 ^ 63"
    and "4 * \<lfloor>pw\<rfloor> * \<lfloor>ph\<rfloor> \<le> 2 ^ 48"
  shows "map_option out_dims (Run img (Finite s)) = Some (\<lfloor>pw\<rfloor>, \<lfloor>ph\<rfloor>)"
proof -
  have pw: "0 \<le> pw" using assms(3) _ assms(5) by (rule product_nonneg) (use assms(1) in simp)
  have ph: "0 \<le> ph" using assms(4) _ assms(6) by (rule product_nonneg) (use assms(1) in simp)
  have tw: "trunc pw = \<lfloor>pw\<rfloor>" using pw by (simp add: trunc_def)
  have th: "trunc ph = \<lfloor>ph\<rfloor>" using ph by (simp add: trunc_def)
  have fw: "0 \<le> \<lfloor>pw\<rfloor>" using pw by simp
  have fh: "0 \<le> \<lfloor>ph\<rfloor>" using ph by simp
  have w: "scaled_dim (Dx (Bounds img)) (Finite s) = Some \<lfloor>pw\<rfloor>"
    using scaled_dim_Finite [OF assms(5)] assms(7) fw by (simp add: tw)
  have h: "scaled_dim (Dy (Bounds img)) (Finite s) = Some \<lfloor>ph\<rfloor>"
    using scaled_dim_Finite [OF assms(6)] assms(8) fh by (simp add: th)
  have ne: "f32_neq (Finite s) (Finite 1)" using assms(2) by (simp add: f32_neq_def)
  have aw: "\<bar>\<lfloor>pw\<rfloor>\<bar> = \<lfloor>pw\<rfloor>" and ah: "\<bar>\<lfloor>ph\<rfloor>\<bar> = \<lfloor>ph\<rfloor>" using fw fh by simp_all
  have "map_option out_dims (Run img (Finite s)) = Some (\<bar>\<lfloor>pw\<rfloor>\<bar>, \<bar>\<lfloor>ph\<rfloor>\<bar>)"
    using assms(7,8,9) by (intro out_dims_resize [OF ne w h]) (simp_all only: aw ah)
  then show ?thesis by (simp only: aw ah)
qed

theorem positive_scale_dimensions_witness:
  "map_option out_dims (Run (Decoded (Rect 0 0 641 481)) (Finite (1 / 2))) = Some (320, 240)"
proof -
  let ?img = "Decoded (Rect 0 0 641 481)"
  have dx: "Dx (Bounds ?img) = 641" and dy: "Dy (Bounds ?img) = 481"
    by (simp_all add: Dx_def Dy_def Rect_def wrap_int_def)
  have pw: "f32_mul (float32_of_int (Dx (Bounds ?img))) (Finite (1 / 2)) = Finite (641 / 2)"
    unfolding dx by code_simp
  have ph: "f32_mul (float32_of_int (Dy (Bounds ?img))) (Finite (1 / 2)) = Finite (481 / 2)"
    unfolding dy by code_simp
  have fw: "\<lfloor>641 / 2 :: rat\<rfloor> = 320" and fh: "\<lfloor>481 / 2 :: rat\<rfloor> = 240"
    by code_simp+
  have "map_option out_dims (Run ?img (Finite (1 / 2))) = Some (\<lfloor>641 / 2 :: rat\<rfloor>, \<lfloor>481 / 2 :: rat\<rfloor>)"
    by (rule positive_scale_dimensions [OF _ _ _ _ pw ph]) (simp_all add: dx dy fw fh del: Bounds.simps)
  then show ?thesis by (simp only: fw fh)
qed

text \<open>
  C3 as the specification states it fails on a 1 by 1 raster at scale 0.5: the claim gives the
  output the size 1 by 1 (each \<open>\<lfloor>1 \<times> 0.5\<rfloor> = 0\<close> clamped to 1); the code returns an image of
  size 0 by 0.
\<close>

theorem no_clamp_counterexample:
  "map_option out_dims (Run (Decoded (Rect 0 0 1 1)) (Finite (1 / 2))) = Some (0, 0)
   \<and> (max 1 \<lfloor>1 * (1 / 2 :: rat)\<rfloor>, max 1 \<lfloor>1 * (1 / 2 :: rat)\<rfloor>) = (1, 1)"
  by code_simp

text \<open>
  C4, as the code has it.  The code has no check of the scale.  For a finite scale \<open>s \<le> 0\<close>
  whose two products convert to \<^verbatim>\<open>int\<close> (to \<open>w\<close> and \<open>h\<close>) and give a size that
  \<^verbatim>\<open>image.NewRGBA\<close> accepts (\<open>\<bar>w\<bar> < 2\<^sup>6\<^sup>2\<close>, \<open>\<bar>h\<bar> < 2\<^sup>6\<^sup>3\<close>, \<open>4 \<times> \<bar>w\<bar> \<times> \<bar>h\<bar> \<le> 2\<^sup>4\<^sup>8\<close>), the run is
  not rejected: it returns an image, after the rescaling call and then the dithering call.
\<close>

theorem nonpositive_scale_not_rejected:
  assumes "s \<le> 0"
    and "scaled_dim (Dx (Bounds img)) (Finite s) = Some w"
    and "scaled_dim (Dy (Bounds img)) (Finite s) = Some h"
    and "\<bar>w\<bar> < 2 ^ 62" "\<bar>h\<bar> < 2 ^ 63" "4 * \<bar>w\<bar> * \<bar>h\<bar> \<le> 2 ^ 48"
  shows "map_option (map is_Scale \<circ> calls) (Run img (Finite s)) = Some [True, False]"
proof -
  have ne: "f32_neq (Finite s) (Finite 1)" using assms(1) by (auto simp: f32_neq_def)
  note n = accepted_size [OF assms(4,5,6)]
  show ?thesis by (simp add: Run_resize [OF ne assms(2,3) n])
qed

theorem nonpositive_scale_witness:
  "map_option (map is_Scale \<circ> calls) (Run (Decoded (Rect 0 0 4 2)) (Finite (- (1 / 2))))
     = Some [True, False]"
proof -
  have w: "scaled_dim (Dx (Bounds (Decoded (Rect 0 0 4 2)))) (Finite (- (1 / 2))) = Some (- 2)"
    by code_simp
  have h: "scaled_dim (Dy (Bounds (Decoded (Rect 0 0 4 2)))) (Finite (- (1 / 2))) = Some (- 1)"
    by code_simp
  show ?thesis
    by (rule nonpositive_scale_not_rejected [OF _ w h]) simp_all
qed

text \<open>
  C4 as the specification states it fails at scale \<open>-1\<close> on a 2 by 2 raster: the run returns
  a paletted image, on the rectangle from \<open>(-2, -2)\<close> to \<open>(0, 0)\<close>, after both drawing calls.
\<close>

theorem negative_scale_accepted_counterexample:
  "Run (Decoded \<lparr>Min_pt = \<lparr>X = 0, Y = 0\<rparr>, Max_pt = \<lparr>X = 2, Y = 2\<rparr>\<rparr>) (Finite (- 1)) =
     Some \<lparr>dst = NewPaletted \<lparr>Min_pt = \<lparr>X = - 2, Y = - 2\<rparr>, Max_pt = \<lparr>X = 0, Y = 0\<rparr>\<rparr>
               [White, Black],
       calls =
         [Scale (NewRGBA \<lparr>Min_pt = \<lparr>X = - 2, Y = - 2\<rparr>, Max_pt = \<lparr>X = 0, Y = 0\<rparr>\<rparr>)
            \<lparr>Min_pt = \<lparr>X = - 2, Y = - 2\<rparr>, Max_pt = \<lparr>X = 0, Y = 0\<rparr>\<rparr>
            (Decoded \<lparr>Min_pt = \<lparr>X = 0, Y = 0\<rparr>, Max_pt = \<lparr>X = 2, Y = 2\<rparr>\<rparr>)
            \<lparr>Min_pt = \<lparr>X = 0, Y = 0\<rparr>, Max_pt = \<lparr>X = 2, Y = 2\<rparr>\<rparr> Over,
          FloydSteinberg_Draw
            (NewPaletted \<lparr>Min_pt = \<lparr>X = - 2, Y = - 2\<rparr>, Max_pt = \<lparr>X = 0, Y = 0\<rparr>\<rparr>
               [White, Black])
            \<lparr>Min_pt = \<lparr>X = - 2, Y = - 2\<rparr>, Max_pt = \<lparr>X = 0, Y = 0\<rparr>\<rparr>
            (NewRGBA \<lparr>Min_pt = \<lparr>X = - 2, Y = - 2\<rparr>, Max_pt = \<lparr>X = 0, Y = 0\<rparr>\<rparr>)
            \<lparr>X = 0, Y = 0\<rparr>]\<rparr>"
  by code_simp

text \<open>
  C10, as the code has it.  For a raster of width \<open>W \<ge> 0\<close> and height \<open>H \<ge> 0\<close> and a finite
  scale \<open>s < 0\<close>, let \<open>pw\<close> and \<open>ph\<close> be the \<^verbatim>\<open>float32\<close> products \<^verbatim>\<open>float32(W)*s\<close> and
  \<^verbatim>\<open>float32(H)*s\<close>.  The corners computed are \<open>\<lceil>pw\<rceil> \<le> 0\<close> and \<open>\<lceil>ph\<rceil> \<le> 0\<close>, the products
  truncated towards zero.  When \<^verbatim>\<open>image.NewRGBA\<close> accepts the size (\<open>-2\<^sup>6\<^sup>2 < \<lceil>pw\<rceil>\<close>,
  \<open>-2\<^sup>6\<^sup>3 < \<lceil>ph\<rceil>\<close> and the \<open>4 \<times> \<lceil>pw\<rceil> \<times> \<lceil>ph\<rceil>\<close> bytes of the buffer at most \<open>2\<^sup>4\<^sup>8\<close>), the run is
  not rejected, \<^verbatim>\<open>image.Rect\<close> swaps the corners with the origin, and the output has the
  dimensions \<open>\<bar>\<lceil>pw\<rceil>\<bar>\<close> by \<open>\<bar>\<lceil>ph\<rceil>\<bar>\<close>, which are not negative.
\<close>

theorem negative_scale_dimensions:
  assumes "s < 0"
    and "0 \<le> Dx (Bounds img)" "0 \<le> Dy (Bounds img)"
    and "f32_mul (float32_of_int (Dx (Bounds img))) (Finite s) = Finite pw"
    and "f32_mul (float32_of_int (Dy (Bounds img))) (Finite s) = Finite ph"
    and "- (2 ^ 62) < \<lceil>pw\<rceil>" "- (2 ^ 63) < \<lceil>ph\<rceil>"
    and "4 * \<lceil>pw\<rceil> * \<lceil>ph\<rceil> \<le> 2 ^ 48"
  shows "map_option (Rect_of \<circ> dst) (Run img (Finite s)) =
           Some \<lparr>Min_pt = \<lparr>X = \<lceil>pw\<rceil>, Y = \<lceil>ph\<rceil>\<rparr>, Max_pt = \<lparr>X = 0, Y = 0\<rparr>\<rparr>
     \<and> map_option out_dims (Run img (Finite s)) = Some (\<bar>\<lceil>pw\<rceil>\<bar>, \<bar>\<lceil>ph\<rceil>\<bar>)
     \<and> \<lceil>pw\<rceil> \<le> 0 \<and> \<lceil>ph\<rceil> \<le> 0"
proof -
  have s: "s \<le> 0" using assms(1) by simp
  have pw: "pw \<le> 0" using assms(2) s assms(4) by (rule product_nonpos)
  have ph: "ph \<le> 0" using assms(3) s assms(5) by (rule product_nonpos)
  have tw: "trunc pw = \<lceil>pw\<rceil>" using pw by (cases "pw = 0") (simp_all add: trunc_def)
  have th: "trunc ph = \<lceil>ph\<rceil>" using ph by (cases "ph = 0") (simp_all add: trunc_def)
  have cw: "\<lceil>pw\<rceil> \<le> 0" using pw by (simp add: ceiling_le_zero)
  have ch: "\<lceil>ph\<rceil> \<le> 0" using ph by (simp add: ceiling_le_zero)
  have w: "scaled_dim (Dx (Bounds img)) (Finite s) = Some \<lceil>pw\<rceil>"
    using scaled_dim_Finite [OF assms(4)] assms(6) cw by (simp add: tw)
  have h: "scaled_dim (Dy (Bounds img)) (Finite s) = Some \<lceil>ph\<rceil>"
    using scaled_dim_Finite [OF assms(5)] assms(7) ch by (simp add: th)
  have ne: "f32_neq (Finite s) (Finite 1)" using assms(1) by (auto simp: f32_neq_def)
  have aw: "\<bar>\<lceil>pw\<rceil>\<bar> < 2 ^ 62"
    unfolding abs_of_nonpos [OF cw] using assms(6) by linarith
  have ah: "\<bar>\<lceil>ph\<rceil>\<bar> < 2 ^ 63"
    unfolding abs_of_nonpos [OF ch] using assms(7) by linarith
  have "4 * \<bar>\<lceil>pw\<rceil>\<bar> * \<bar>\<lceil>ph\<rceil>\<bar> = 4 * \<lceil>pw\<rceil> * \<lceil>ph\<rceil>"
    using cw ch by (simp add: abs_of_nonpos)
  then have ab: "4 * \<bar>\<lceil>pw\<rceil>\<bar> * \<bar>\<lceil>ph\<rceil>\<bar> \<le> 2 ^ 48" using assms(8) by (simp only:)
  note n = accepted_size [OF aw ah ab]
  have "map_option (Rect_of \<circ> dst) (Run img (Finite s)) =
           Some \<lparr>Min_pt = \<lparr>X = \<lceil>pw\<rceil>, Y = \<lceil>ph\<rceil>\<rparr>, Max_pt = \<lparr>X = 0, Y = 0\<rparr>\<rparr>"
    using cw ch by (simp add: Run_resize [OF ne w h n] Rect_nonpos)
  moreover have "map_option out_dims (Run img (Finite s)) = Some (\<bar>\<lceil>pw\<rceil>\<bar>, \<bar>\<lceil>ph\<rceil>\<bar>)"
    by (rule out_dims_resize [OF ne w h aw ah ab])
  ultimately show ?thesis using cw ch by simp
qed

theorem negative_scale_dimensions_witness:
  "map_option (Rect_of \<circ> dst) (Run (Decoded (Rect 0 0 5 3)) (Finite (- (1 / 2)))) =
           Some \<lparr>Min_pt = \<lparr>X = - 2, Y = - 1\<rparr>, Max_pt = \<lparr>X = 0, Y = 0\<rparr>\<rparr>
     \<and> map_option out_dims (Run (Decoded (Rect 0 0 5 3)) (Finite (- (1 / 2)))) = Some (2, 1)"
proof -
  let ?img = "Decoded (Rect 0 0 5 3)"
  have dx: "0 \<le> Dx (Bounds ?img)" and dy: "0 \<le> Dy (Bounds ?img)"
    by (simp_all add: Dx_def Dy_def Rect_def wrap_int_def)
  have pw: "f32_mul (float32_of_int (Dx (Bounds ?img))) (Finite (- (1 / 2))) = Finite (- (5 / 2))"
    by code_simp
  have ph: "f32_mul (float32_of_int (Dy (Bounds ?img))) (Finite (- (1 / 2))) = Finite (- (3 / 2))"
    by code_simp
  have cw: "\<lceil>- (5 / 2) :: rat\<rceil> = - 2" and ch: "\<lceil>- (3 / 2) :: rat\<rceil> = - 1"
    by code_simp+
  show ?thesis
    using negative_scale_dimensions [OF _ dx dy pw ph] by (simp add: cw ch)
qed

text \<open>
  C10 as stated fails at scale \<open>-0.5\<close> on a 3 by 1 raster: the claim gives the output the
  dimensions \<open>\<bar>\<lfloor>-1.5\<rfloor>\<bar> = 2\<close> by \<open>\<bar>\<lfloor>-0.5\<rfloor>\<bar> = 1\<close>; the code truncates towards zero and
  returns an image of 1 by 0.
\<close>

theorem negative_scale_truncates_counterexample:
  "map_option out_dims (Run (Decoded (Rect 0 0 3 1)) (Finite (- (1 / 2)))) = Some (1, 0)
   \<and> (\<bar>\<lfloor>3 * (- (1 / 2)) :: rat\<rfloor>\<bar>, \<bar>\<lfloor>1 * (- (1 / 2)) :: rat\<rfloor>\<bar>) = (2, 1)"
  by code_simp

text \<open>
  The claims C1, C2, C6, C8 and C9 are about what the two drawers do to the pixels (the
  diffusion weights, the indices written, the tie between the two colours, the source
  coordinate of a destination pixel).  \<^verbatim>\<open>Run\<close> passes the images to
  \<^verbatim>\<open>draw.NearestNeighbor.Scale\<close> and \<^verbatim>\<open>draw.FloydSteinberg.Draw\<close> of
  \<^verbatim>\<open>golang.org/x/image/draw\<close> and the source file holds no pixel arithmetic of its own;
  the calls and their arguments are all that is stated about them here.
\<close>

end
